theory Spec2Isabelle
  imports Main
begin

section \<open>Shared data\<close>

text \<open>
  Every \<^verbatim>\<open>new Error(message)\<close> of the sources is one constructor, named after its
  message. The last three are the library's: a document refused by the schema, a write
  refused by a unique index, and the update of a record that is not stored.
\<close>

datatype error =
    DatabaseConnectionFailed
  | MissingEmailOrPassword
  | UserNotFound
  | InvalidPassword
  | FailedToLogIn
  | ValidationFailed
  | DuplicateKey
  | DocumentNotFound

type_synonym objectId = nat
type_synonym connection = nat

text \<open>The \<^verbatim>\<open>IUser\<close> interface of the user model; \<open>oid\<close> is its \<^verbatim>\<open>_id\<close>.\<close>

record user =
  oid :: objectId
  email :: string
  password :: string
  createdAt :: nat
  updatedAt :: nat

text \<open>
  JavaScript's \<^verbatim>\<open>!x\<close> on a value that is a string or \<^verbatim>\<open>undefined\<close>: true for
  \<^verbatim>\<open>undefined\<close> and for the empty string.
\<close>

definition falsy :: "string option \<Rightarrow> bool" where
  "falsy v = (case v of None \<Rightarrow> True | Some s \<Rightarrow> s = [])"

text \<open>\<^verbatim>\<open>User.findOne({ email })\<close>: the first stored record with exactly that email.\<close>

definition findOne :: "string \<Rightarrow> user list \<Rightarrow> user option" where
  "findOne e users = find (\<lambda>u. email u = e) users"

section \<open>Credential verification (\<^verbatim>\<open>src/lib/auth.ts\<close>)\<close>

text \<open>
  The credentials object is a dictionary from field names to strings, or \<^verbatim>\<open>undefined\<close>.
  The value \<^verbatim>\<open>authorize\<close> returns on success has the two fields \<^verbatim>\<open>id\<close> and
  \<^verbatim>\<open>email\<close> and no other.
\<close>

type_synonym credentials = "string \<rightharpoonup> string"

record identity =
  ident_id :: objectId
  ident_email :: string

text \<open>
  The body of the \<^verbatim>\<open>try\<close> block (lines 30 to 55). \<open>db\<close> is the outcome of
  \<^verbatim>\<open>await connectToDatabase()\<close>, \<open>bcrypt_compare\<close> is \<^verbatim>\<open>bcrypt.compare\<close>.
\<close>

definition authorize_try ::
  "(string \<Rightarrow> string \<Rightarrow> bool) \<Rightarrow> error + connection \<Rightarrow> user list \<Rightarrow> string \<Rightarrow> string
     \<Rightarrow> error + identity" where
  "authorize_try bcrypt_compare db users e p =
     (case db of
        Inl err \<Rightarrow> Inl err
      | Inr _ \<Rightarrow>
          (case findOne e users of
             None \<Rightarrow> Inl UserNotFound
           | Some u \<Rightarrow>
               if \<not> bcrypt_compare p (password u) then Inl InvalidPassword
               else Inr \<lparr>ident_id = oid u, ident_email = email u\<rparr>))"

text \<open>
  \<^verbatim>\<open>authorize(credentials)\<close>: the presence check of line 26 throws outside the
  \<^verbatim>\<open>try\<close>; the \<^verbatim>\<open>catch\<close> of line 56 replaces every error raised inside it.
\<close>

definition authorize ::
  "(string \<Rightarrow> string \<Rightarrow> bool) \<Rightarrow> error + connection \<Rightarrow> user list \<Rightarrow> credentials option
     \<Rightarrow> error + identity" where
  "authorize bcrypt_compare db users credentials =
     (case credentials of
        None \<Rightarrow> Inl MissingEmailOrPassword
      | Some c \<Rightarrow>
          if falsy (c ''email'') \<or> falsy (c ''password'') then Inl MissingEmailOrPassword
          else
            (case authorize_try bcrypt_compare db users
                    (case c ''email'' of Some e \<Rightarrow> e | None \<Rightarrow> [])
                    (case c ''password'' of Some p \<Rightarrow> p | None \<Rightarrow> []) of
               Inl _ \<Rightarrow> Inl FailedToLogIn
             | Inr i \<Rightarrow> Inr i))"

section \<open>Route middleware (\<^verbatim>\<open>middleware.ts\<close>)\<close>

definition startsWith :: "string \<Rightarrow> string \<Rightarrow> bool" where
  "startsWith s p = (take (length p) s = p)"

text \<open>
  The \<^verbatim>\<open>authorized\<close> callback. The token is the decoded session token or
  \<^verbatim>\<open>null\<close>; \<^verbatim>\<open>!!token\<close> is true exactly for a token that is there.
\<close>

definition authorized :: "'t option \<Rightarrow> string \<Rightarrow> bool" where
  "authorized token pathname =
     (if startsWith pathname ''/api/auth'' \<or> startsWith pathname ''/login''
         \<or> startsWith pathname ''/register''
      then True
      else if pathname = ''/'' \<or> startsWith pathname ''/api/videos''
      then True
      else token \<noteq> None)"

text \<open>
  The matcher of \<^verbatim>\<open>config\<close> is the one pattern
  \<^verbatim>\<open>"/((?!api|_next/static|_next/image|favicon.ico).*) "\<close>, whose last character before
  the closing quote is a space. Read as a regular expression anchored at both ends of the
  pathname it is: a slash, a group that must not start with one of the four alternatives and
  is any run of characters, and a space. In an alternative a dot stands for any character
  but a line terminator, as it does in \<^verbatim>\<open>.*\<close>.
\<close>

definition dot :: "char \<Rightarrow> bool" where
  "dot c = (c \<noteq> CHR 0x0A \<and> c \<noteq> CHR 0x0D)"

fun lookingAt :: "string \<Rightarrow> string \<Rightarrow> bool" where
  "lookingAt [] s = True"
| "lookingAt (p # ps) [] = False"
| "lookingAt (p # ps) (c # cs) = ((if p = CHR ''.'' then dot c else p = c) \<and> lookingAt ps cs)"

definition excluded :: "string list" where
  "excluded = [''api'', ''_next/static'', ''_next/image'', ''favicon.ico'']"

definition matcher :: "string \<Rightarrow> bool" where
  "matcher pathname =
     (case pathname of
        [] \<Rightarrow> False
      | c # rest \<Rightarrow>
          c = CHR ''/''
          \<and> \<not> list_ex (\<lambda>alt. lookingAt alt rest) excluded
          \<and> rest \<noteq> [] \<and> last rest = CHR '' '' \<and> list_all dot (butlast rest))"

text \<open>
  The middleware runs the \<^verbatim>\<open>authorized\<close> callback on the paths the matcher selects
  and on no other: \<open>None\<close> is a request the middleware never sees.
\<close>

definition middleware :: "'t option \<Rightarrow> string \<Rightarrow> bool option" where
  "middleware token pathname =
     (if matcher pathname then Some (authorized token pathname) else None)"

section \<open>The user model and its pre-save hook\<close>

text \<open>
  A document of the model is the record together with whether it is new (not stored yet)
  and the paths modified since it was created or loaded;
  \<^verbatim>\<open>this.isModified(path)\<close> asks for membership.
\<close>

record user_doc = user +
  isNew :: bool
  modifiedPaths :: "string list"

definition isModified :: "string \<Rightarrow> user_doc \<Rightarrow> bool" where
  "isModified path this = (path \<in> set (modifiedPaths this))"

text \<open>
  \<^verbatim>\<open>bcrypt.hash(plaintext, rounds)\<close> draws a fresh salt, so it is a function of the
  plaintext, the cost and a source of randomness \<open>'r\<close> that it consumes. The hook
  \<^verbatim>\<open>userSchema.pre("save", ...)\<close> calls it with cost 10 when the password path is
  modified and leaves the document and the randomness alone otherwise.
\<close>

type_synonym 'r hasher = "string \<Rightarrow> nat \<Rightarrow> 'r \<Rightarrow> string \<times> 'r"

definition pre_save :: "'r hasher \<Rightarrow> user_doc \<Rightarrow> 'r \<Rightarrow> user_doc \<times> 'r" where
  "pre_save bcrypt_hash this rng =
     (if isModified ''password'' this
      then (case bcrypt_hash (password this) 10 rng of
              (h, rng') \<Rightarrow> (this\<lparr>password := h\<rparr>, rng'))
      else (this, rng))"

text \<open>
  What the library does around the hook. \<open>save\<close> validates the document against the
  schema (\<^verbatim>\<open>required: true\<close> refuses an empty email or password), runs the hook, sets
  the timestamps (\<^verbatim>\<open>timestamps: true\<close>) and writes the record of the resulting
  document. A new document is inserted: the unique indexes on \<^verbatim>\<open>_id\<close> and
  \<^verbatim>\<open>email\<close> reject it when a stored record has its identifier or its email. A loaded
  document replaces the stored record with its identifier, unless another record has
  its email or no record has its identifier. \<open>create\<close> builds a new document from the
  given fields, all of them modified, and saves it.
\<close>

definition findById :: "objectId \<Rightarrow> user list \<Rightarrow> user option" where
  "findById i users = find (\<lambda>u. oid u = i) users"

definition validate :: "user_doc \<Rightarrow> bool" where
  "validate this = (email this \<noteq> [] \<and> password this \<noteq> [])"

definition timestamps :: "nat \<Rightarrow> user_doc \<Rightarrow> user_doc" where
  "timestamps now this =
     (if isNew this then this\<lparr>createdAt := now, updatedAt := now\<rparr>
      else if modifiedPaths this = [] then this
      else this\<lparr>updatedAt := now\<rparr>)"

definition persist :: "bool \<Rightarrow> user \<Rightarrow> user list \<Rightarrow> error + user list" where
  "persist new u users =
     (if new then
        (if list_ex (\<lambda>v. email v = email u \<or> oid v = oid u) users then Inl DuplicateKey
         else Inr (users @ [u]))
      else
        (if list_ex (\<lambda>v. email v = email u \<and> oid v \<noteq> oid u) users then Inl DuplicateKey
         else if list_ex (\<lambda>v. oid v = oid u) users
         then Inr (map (\<lambda>v. if oid v = oid u then u else v) users)
         else Inl DocumentNotFound))"

definition save ::
  "'r hasher \<Rightarrow> nat \<Rightarrow> user_doc \<Rightarrow> user list \<Rightarrow> 'r \<Rightarrow> (error + user list) \<times> 'r" where
  "save bcrypt_hash now this users rng =
     (if \<not> validate this then (Inl ValidationFailed, rng)
      else
        (case pre_save bcrypt_hash this rng of
           (this', rng') \<Rightarrow>
             (persist (isNew this') (user.truncate (timestamps now this')) users, rng')))"

definition create ::
  "'r hasher \<Rightarrow> objectId \<Rightarrow> nat \<Rightarrow> string \<Rightarrow> string \<Rightarrow> user list \<Rightarrow> 'r
     \<Rightarrow> (error + user list) \<times> 'r" where
  "create bcrypt_hash new_id now e p users rng =
     save bcrypt_hash now
       \<lparr>oid = new_id, email = e, password = p, createdAt = now, updatedAt = now,
        isNew = True, modifiedPaths = [''email'', ''password'']\<rparr>
       users rng"

section \<open>The registration endpoint\<close>

text \<open>
  A response is its JSON body, \<^verbatim>\<open>{ error: ... }\<close> or \<^verbatim>\<open>{ message: ... }\<close>, and its
  status. The request is what \<^verbatim>\<open>request.json()\<close> gives: the fields of the body, or
  \<open>None\<close> when parsing throws. \<open>db\<close> is the outcome of \<^verbatim>\<open>await connectToDatabase()\<close>,
  \<open>new_id\<close> and \<open>now\<close> the identifier and the time a created record gets. The handler
  returns the response with the user collection and the randomness it leaves behind.
\<close>

datatype json = ErrorBody string | MessageBody string

record response =
  body :: json
  status :: nat

definition POST ::
  "'r hasher \<Rightarrow> (string \<rightharpoonup> string) option \<Rightarrow> error + connection \<Rightarrow> objectId \<Rightarrow> nat
     \<Rightarrow> user list \<Rightarrow> 'r \<Rightarrow> response \<times> user list \<times> 'r" where
  "POST bcrypt_hash request db new_id now users rng =
     (case request of
        None \<Rightarrow> (\<lparr>body = ErrorBody ''Failed to register user'', status = 500\<rparr>, users, rng)
      | Some parsed \<Rightarrow>
          if falsy (parsed ''email'') \<or> falsy (parsed ''password'')
          then (\<lparr>body = ErrorBody ''Email and password are required'', status = 400\<rparr>,
                users, rng)
          else
            (case db of
               Inl _ \<Rightarrow>
                 (\<lparr>body = ErrorBody ''Failed to register user'', status = 500\<rparr>, users, rng)
             | Inr _ \<Rightarrow>
                 (case findOne (case parsed ''email'' of Some e \<Rightarrow> e | None \<Rightarrow> []) users of
                    Some existingUser \<Rightarrow>
                      (\<lparr>body = ErrorBody ''Email already exists'', status = 400\<rparr>, users, rng)
                  | None \<Rightarrow>
                      (case create bcrypt_hash new_id now
                              (case parsed ''email'' of Some e \<Rightarrow> e | None \<Rightarrow> [])
                              (case parsed ''password'' of Some p \<Rightarrow> p | None \<Rightarrow> [])
                              users rng of
                         (Inl _, rng') \<Rightarrow>
                           (\<lparr>body = ErrorBody ''Failed to register user'', status = 500\<rparr>,
                            users, rng')
                       | (Inr users', rng') \<Rightarrow>
                           (\<lparr>body = MessageBody ''User registered successfully'',
                             status = 201\<rparr>, users', rng')))))"

section \<open>The connection cache (\<^verbatim>\<open>src/lib/db.ts\<close>)\<close>

text \<open>
  \<^verbatim>\<open>cached\<close> holds the connection and the stored promise. A promise is named by the
  index of the connection attempt behind it; \<open>attempts\<close> lists every
  \<^verbatim>\<open>mongoose.connect\<close> started so far with its state.

  \<^verbatim>\<open>connectToDatabase\<close> is an \<^verbatim>\<open>async\<close> function with one \<^verbatim>\<open>await\<close>: a call runs
  without interruption up to the \<^verbatim>\<open>await\<close> of line 45 (\<open>call\<close>), is suspended
  there, and runs without interruption from there to its end once the awaited promise is
  settled (\<open>resume\<close>). Callers are named by numbers; \<open>waiting\<close> maps a suspended caller
  to the promise it awaits and \<open>returned\<close> a finished caller to what it got.
\<close>

datatype attempt = Pending | Resolved connection | Rejected

record cache =
  conn :: "connection option"
  promise :: "nat option"

record system =
  cached :: cache
  attempts :: "attempt list"
  waiting :: "nat \<rightharpoonup> nat"
  returned :: "nat \<rightharpoonup> error + connection"

definition init :: system where
  "init = \<lparr>cached = \<lparr>conn = None, promise = None\<rparr>, attempts = [],
           waiting = Map.empty, returned = Map.empty\<rparr>"

definition call :: "nat \<Rightarrow> system \<Rightarrow> system" where
  "call c s =
     (case conn (cached s) of
        Some h \<Rightarrow> s\<lparr>returned := (returned s)(c \<mapsto> Inr h)\<rparr>
      | None \<Rightarrow>
          (case promise (cached s) of
             None \<Rightarrow>
               s\<lparr>cached := (cached s)\<lparr>promise := Some (length (attempts s))\<rparr>,
                 attempts := attempts s @ [Pending],
                 waiting := (waiting s)(c \<mapsto> length (attempts s))\<rparr>
           | Some a \<Rightarrow> s\<lparr>waiting := (waiting s)(c \<mapsto> a)\<rparr>))"

definition resume :: "nat \<Rightarrow> system \<Rightarrow> system option" where
  "resume c s =
     (case waiting s c of
        None \<Rightarrow> None
      | Some a \<Rightarrow>
          if length (attempts s) \<le> a then None
          else
            (case attempts s ! a of
               Pending \<Rightarrow> None
             | Resolved h \<Rightarrow>
                 Some (s\<lparr>cached := (cached s)\<lparr>conn := Some h\<rparr>,
                         waiting := (waiting s)(c := None),
                         returned := (returned s)(c \<mapsto> Inr h)\<rparr>)
             | Rejected \<Rightarrow>
                 Some (s\<lparr>cached := (cached s)\<lparr>promise := None\<rparr>,
                         waiting := (waiting s)(c := None),
                         returned := (returned s)(c \<mapsto> Inl DatabaseConnectionFailed)\<rparr>)))"

text \<open>
  What can happen next: a new caller calls the function, a pending attempt settles, or a
  suspended caller whose promise is settled resumes. An event that cannot happen in a
  state gives \<open>None\<close>.
\<close>

datatype event = Call nat | Settle nat attempt | Resume nat

fun step :: "event \<Rightarrow> system \<Rightarrow> system option" where
  "step (Call c) s =
     (if waiting s c = None \<and> returned s c = None then Some (call c s) else None)"
| "step (Settle a out) s =
     (if a < length (attempts s) \<and> attempts s ! a = Pending \<and> out \<noteq> Pending
      then Some (s\<lparr>attempts := (attempts s)[a := out]\<rparr>)
      else None)"
| "step (Resume c) s = resume c s"

fun run :: "event list \<Rightarrow> system \<Rightarrow> system option" where
  "run [] s = Some s"
| "run (e # es) s = (case step e s of None \<Rightarrow> None | Some s' \<Rightarrow> run es s')"

definition isCall :: "event \<Rightarrow> bool" where
  "isCall e = (case e of Call _ \<Rightarrow> True | _ \<Rightarrow> False)"

definition no_failure :: "system \<Rightarrow> bool" where
  "no_failure s = (\<forall>c e. returned s c \<noteq> Some (Inl e))"

text \<open>
  Three invariants of the runs. A suspended caller has not returned. \<open>single\<close>: one
  attempt at most was started, every suspended caller and the stored promise point at it,
  and a cached connection and every result come from it. \<open>unspent\<close>: an empty promise
  slot means no attempt was started yet.
\<close>

definition pending_callers :: "system \<Rightarrow> bool" where
  "pending_callers s \<longleftrightarrow> (\<forall>c a. waiting s c = Some a \<longrightarrow> returned s c = None)"

definition single :: "system \<Rightarrow> bool" where
  "single s \<longleftrightarrow>
     length (attempts s) \<le> 1
     \<and> (\<forall>c a. waiting s c = Some a \<longrightarrow> a = 0 \<and> attempts s \<noteq> [])
     \<and> (\<forall>a. promise (cached s) = Some a \<longrightarrow> a = 0 \<and> attempts s \<noteq> [])
     \<and> (\<forall>h. conn (cached s) = Some h \<longrightarrow> attempts s = [Resolved h])
     \<and> (\<forall>c h. returned s c = Some (Inr h) \<longrightarrow> attempts s = [Resolved h])
     \<and> (\<forall>c e. returned s c = Some (Inl e) \<longrightarrow>
            attempts s = [Rejected] \<and> e = DatabaseConnectionFailed)"

definition unspent :: "system \<Rightarrow> bool" where
  "unspent s \<longleftrightarrow> (promise (cached s) = None \<longrightarrow> attempts s = [])"

section \<open>Example values\<close>

text \<open>
  A toy hasher and its comparison, a stored user and a loaded document of that user whose
  email was changed: the concrete inputs the general theorems are run on.
\<close>

definition example_hash :: "nat hasher" where
  "example_hash p cost rng = (''$2a$'' @ p, Suc rng)"

definition example_compare :: "string \<Rightarrow> string \<Rightarrow> bool" where
  "example_compare p h = (h = ''$2a$'' @ p)"

definition ann :: user where
  "ann = \<lparr>oid = 1, email = ''ann@x.io'', password = ''$2a$secret'', createdAt = 3,
          updatedAt = 3\<rparr>"

definition ann_doc :: user_doc where
  "ann_doc = \<lparr>oid = 1, email = ''ann@y.io'', password = ''$2a$secret'', createdAt = 3,
          updatedAt = 3, isNew = False, modifiedPaths = [''email'']\<rparr>"

section \<open>Properties of the route middleware\<close>

text \<open>
  C9. The authorization predicate is true on \<^verbatim>\<open>/api/auth/callback\<close>, on \<^verbatim>\<open>/\<close> and on
  \<^verbatim>\<open>/api/videos\<close> whatever the token, including none; on \<^verbatim>\<open>/dashboard\<close> it is false
  without a token and true with one.
\<close>

theorem authorized_table:
  "(\<forall>token :: 't option. authorized token ''/api/auth/callback'')
   \<and> (\<forall>token :: 't option. authorized token ''/'')
   \<and> (\<forall>token :: 't option. authorized token ''/api/videos'')
   \<and> \<not> authorized (None :: 't option) ''/dashboard''
   \<and> (\<forall>t :: 't. authorized (Some t) ''/dashboard'')"
  by (simp add: authorized_def startsWith_def)

lemma matcher_needs_trailing_space:
  "matcher pathname \<Longrightarrow> pathname \<noteq> [] \<and> last pathname = CHR '' ''"
  by (cases pathname) (auto simp: matcher_def)

text \<open>
  C4. The matcher does not select \<^verbatim>\<open>/dashboard\<close>, a path outside the excluded set:
  the pattern ends in a space, so the middleware never evaluates the predicate there,
  while it does select the same path followed by a space.
\<close>

theorem matcher_misses_dashboard:
  "matcher ''/dashboard'' = False
   \<and> middleware (None :: 't option) ''/dashboard'' = None
   \<and> list_ex (\<lambda>alt. lookingAt alt ''dashboard'') excluded = False
   \<and> matcher ''/dashboard '' = True"
  by (simp add: middleware_def matcher_def excluded_def dot_def)

section \<open>Properties of the credential verification\<close>

lemma findOne_None_iff: "findOne e users = None \<longleftrightarrow> e \<notin> email ` set users"
  unfolding findOne_def by (auto simp: find_None_iff image_iff)

lemma findOne_Some_mem: "findOne e users = Some u \<Longrightarrow> u \<in> set users \<and> email u = e"
  unfolding findOne_def by (auto simp: find_Some_iff)

lemma findOne_distinct:
  "distinct (map email users) \<Longrightarrow> u \<in> set users \<Longrightarrow> findOne (email u) users = Some u"
  unfolding findOne_def
  by (induction users) (auto simp: image_iff)

lemma authorize_error_of_credentials:
  "authorize cmp db users cr = Inl err \<Longrightarrow>
     err = (case cr of
              None \<Rightarrow> MissingEmailOrPassword
            | Some c \<Rightarrow>
                if falsy (c ''email'') \<or> falsy (c ''password'') then MissingEmailOrPassword
                else FailedToLogIn)"
  by (auto simp: authorize_def split: option.splits sum.splits if_splits)

text \<open>
  C2. With both credentials present, a run with a stored email and a password that
  \<^verbatim>\<open>bcrypt.compare\<close> rejects and a run with an email that is not stored both fail with
  \<^verbatim>\<open>Failed to log in\<close>, whatever the stored users and whatever the outcome of the
  connection. More generally the error of a failing run is fixed by the credentials alone:
  two failing runs on the same credentials give the same error on any two user collections.
\<close>

theorem non_enumeration:
  assumes "c1 ''email'' = Some e1" and "c1 ''password'' = Some p1"
    and "e1 \<noteq> []" and "p1 \<noteq> []"
    and "e1 \<in> email ` set users"
    and "\<forall>u \<in> set users. email u = e1 \<longrightarrow> \<not> bcrypt_compare p1 (password u)"
    and "c2 ''email'' = Some e2" and "c2 ''password'' = Some p2"
    and "e2 \<noteq> []" and "p2 \<noteq> []"
    and "e2 \<notin> email ` set users"
  shows "authorize bcrypt_compare db1 users (Some c1) = Inl FailedToLogIn
         \<and> authorize bcrypt_compare db2 users (Some c2) = Inl FailedToLogIn
         \<and> (\<forall>cr dbA dbB usersA usersB errA errB.
               authorize bcrypt_compare dbA usersA cr = Inl errA
               \<and> authorize bcrypt_compare dbB usersB cr = Inl errB \<longrightarrow> errA = errB)"
proof -
  obtain u where u: "findOne e1 users = Some u"
    using assms(5) findOne_None_iff [of e1 users] by (cases "findOne e1 users") auto
  with assms(6) have wrong: "\<not> bcrypt_compare p1 (password u)"
    using findOne_Some_mem [OF u] by blast
  have none: "findOne e2 users = None"
    using assms(11) by (simp add: findOne_None_iff)
  have "authorize bcrypt_compare db1 users (Some c1) = Inl FailedToLogIn"
    using assms(1-4) u wrong
    by (simp add: authorize_def authorize_try_def falsy_def split: sum.splits)
  moreover have "authorize bcrypt_compare db2 users (Some c2) = Inl FailedToLogIn"
    using assms(7-10) none
    by (simp add: authorize_def authorize_try_def falsy_def split: sum.splits)
  moreover have "errA = errB"
    if "authorize bcrypt_compare dbA usersA cr = Inl errA"
      and "authorize bcrypt_compare dbB usersB cr = Inl errB"
    for cr dbA dbB usersA usersB errA errB
    using authorize_error_of_credentials [OF that(1)]
      authorize_error_of_credentials [OF that(2)] by simp
  ultimately show ?thesis by blast
qed

theorem non_enumeration_witness:
  "authorize example_compare (Inr 0) [ann]
     (Some [''email'' \<mapsto> ''ann@x.io'', ''password'' \<mapsto> ''guess'']) = Inl FailedToLogIn
   \<and> authorize example_compare (Inl DatabaseConnectionFailed) [ann]
     (Some [''email'' \<mapsto> ''bob@x.io'', ''password'' \<mapsto> ''secret'']) = Inl FailedToLogIn"
  using non_enumeration [where ?c1.0 = "[''email'' \<mapsto> ''ann@x.io'', ''password'' \<mapsto> ''guess'']"
      and ?e1.0 = "''ann@x.io''" and ?p1.0 = "''guess''" and users = "[ann]"
      and bcrypt_compare = example_compare
      and ?c2.0 = "[''email'' \<mapsto> ''bob@x.io'', ''password'' \<mapsto> ''secret'']"
      and ?e2.0 = "''bob@x.io''" and ?p2.0 = "''secret''"
      and ?db1.0 = "Inr 0" and ?db2.0 = "Inl DatabaseConnectionFailed"]
  by (simp add: ann_def example_compare_def)

text \<open>
  C3, as the claim states it, fails: without credentials, or with an empty password, the
  caller gets \<^verbatim>\<open>Missing email or password\<close>, which is not the generic error.
\<close>

theorem missing_credentials_distinct:
  "authorize example_compare (Inr 0) [ann] None = Inl MissingEmailOrPassword
   \<and> authorize example_compare (Inr 0) [ann]
        (Some [''email'' \<mapsto> ''ann@x.io'', ''password'' \<mapsto> []]) = Inl MissingEmailOrPassword
   \<and> MissingEmailOrPassword \<noteq> FailedToLogIn"
  by (simp add: authorize_def falsy_def)

text \<open>
  C3, amended. The presence check fails with \<^verbatim>\<open>Missing email or password\<close>; every
  failure inside the \<^verbatim>\<open>try\<close> block (the connection fails, no user has the email, the
  password does not match) reaches the caller as \<^verbatim>\<open>Failed to log in\<close>; and no other
  error leaves \<^verbatim>\<open>authorize\<close>.
\<close>

theorem authorize_failure_branches:
  "authorize cmp db users None = Inl MissingEmailOrPassword
   \<and> (falsy (c ''email'') \<or> falsy (c ''password'')
        \<longrightarrow> authorize cmp db users (Some c) = Inl MissingEmailOrPassword)
   \<and> (c ''email'' = Some e \<and> e \<noteq> [] \<and> c ''password'' = Some p \<and> p \<noteq> [] \<longrightarrow>
        (\<forall>x. db = Inl x \<longrightarrow> authorize cmp db users (Some c) = Inl FailedToLogIn)
        \<and> (findOne e users = None \<longrightarrow> authorize cmp db users (Some c) = Inl FailedToLogIn)
        \<and> (\<forall>u. findOne e users = Some u \<and> \<not> cmp p (password u)
              \<longrightarrow> authorize cmp db users (Some c) = Inl FailedToLogIn))
   \<and> (\<forall>err. authorize cmp db users credentials = Inl err
         \<longrightarrow> err = FailedToLogIn \<or> err = MissingEmailOrPassword)"
  by (auto simp: authorize_def authorize_try_def falsy_def split: sum.splits option.splits)

theorem authorize_failure_branches_witness:
  "authorize example_compare (Inl DatabaseConnectionFailed) [ann]
      (Some [''email'' \<mapsto> ''ann@x.io'', ''password'' \<mapsto> ''secret'']) = Inl FailedToLogIn
   \<and> authorize example_compare (Inr 0) [ann]
      (Some [''email'' \<mapsto> ''bob@x.io'', ''password'' \<mapsto> ''secret'']) = Inl FailedToLogIn
   \<and> authorize example_compare (Inr 0) [ann]
      (Some [''email'' \<mapsto> ''ann@x.io'', ''password'' \<mapsto> ''guess'']) = Inl FailedToLogIn
   \<and> authorize example_compare (Inr 0) [ann]
      (Some [''password'' \<mapsto> ''secret'']) = Inl MissingEmailOrPassword"
  using
    authorize_failure_branches [where cmp = example_compare
      and db = "Inl DatabaseConnectionFailed" and users = "[ann]"
      and c = "[''email'' \<mapsto> ''ann@x.io'', ''password'' \<mapsto> ''secret'']"
      and e = "''ann@x.io''" and p = "''secret''"]
    authorize_failure_branches [where cmp = example_compare
      and db = "Inr 0" and users = "[ann]"
      and c = "[''email'' \<mapsto> ''bob@x.io'', ''password'' \<mapsto> ''secret'']"
      and e = "''bob@x.io''" and p = "''secret''"]
    authorize_failure_branches [where cmp = example_compare
      and db = "Inr 0" and users = "[ann]"
      and c = "[''email'' \<mapsto> ''ann@x.io'', ''password'' \<mapsto> ''guess'']"
      and e = "''ann@x.io''" and p = "''guess''"]
    authorize_failure_branches [where cmp = example_compare
      and db = "Inr 0" and users = "[ann]" and c = "[''password'' \<mapsto> ''secret'']"]
  by (simp add: findOne_def ann_def example_compare_def falsy_def)

text \<open>
  C8. When the connection is acquired and the emails of the stored users are distinct,
  every stored user whose password field \<^verbatim>\<open>bcrypt.compare\<close> accepts for the plaintext
  \<open>p\<close> is authenticated by its email and \<open>p\<close> (both non-empty): the result is the
  identity made of that user's \<^verbatim>\<open>_id\<close> and email, a value with no other field.
  And whatever the input, a successful result is the identifier and email of a stored user.
\<close>

theorem authorize_success:
  assumes "u \<in> set users" and "distinct (map email users)"
    and "bcrypt_compare p (password u)"
    and "email u \<noteq> []" and "p \<noteq> []"
    and "c ''email'' = Some (email u)" and "c ''password'' = Some p"
  shows "authorize bcrypt_compare (Inr h) users (Some c)
           = Inr \<lparr>ident_id = oid u, ident_email = email u\<rparr>
     \<and> (\<forall>db cr i. authorize bcrypt_compare db users cr = Inr i \<longrightarrow>
           (\<exists>v. v \<in> set users \<and> i = \<lparr>ident_id = oid v, ident_email = email v\<rparr>))"
proof -
  have ok: "authorize bcrypt_compare (Inr h) users (Some c)
           = Inr \<lparr>ident_id = oid u, ident_email = email u\<rparr>"
    using assms findOne_distinct [of users u]
    by (simp add: authorize_def authorize_try_def falsy_def)
  have only: "\<exists>v. v \<in> set users \<and> i = \<lparr>ident_id = oid v, ident_email = email v\<rparr>"
    if "authorize bcrypt_compare db users cr = Inr i" for db cr i
    using that
    by (auto simp: authorize_def authorize_try_def falsy_def dest: findOne_Some_mem
        split: option.splits sum.splits if_splits)
  show ?thesis using ok only by blast
qed

theorem authorize_success_witness:
  "authorize example_compare (Inr 0) [ann]
     (Some [''email'' \<mapsto> ''ann@x.io'', ''password'' \<mapsto> ''secret''])
     = Inr \<lparr>ident_id = 1, ident_email = ''ann@x.io''\<rparr>"
  using authorize_success [where u = ann and users = "[ann]" and p = "''secret''"
      and bcrypt_compare = example_compare and h = 0
      and c = "[''email'' \<mapsto> ''ann@x.io'', ''password'' \<mapsto> ''secret'']"]
  by (simp add: ann_def example_compare_def)


section \<open>Properties of the user model and of the registration endpoint\<close>

lemma find_replace:
  "list_ex (\<lambda>v. oid v = oid u) users \<Longrightarrow>
     find (\<lambda>v. oid v = oid u) (map (\<lambda>v. if oid v = oid u then u else v) users) = Some u"
  by (induction users) auto

lemma find_append_new:
  "\<not> list_ex (\<lambda>v. P v \<or> oid v = oid u) users \<Longrightarrow>
     find (\<lambda>v. oid v = oid u) (users @ [u]) = Some u"
  by (induction users) auto

lemma persist_findById:
  "persist new u users = Inr users' \<Longrightarrow> findById (oid u) users' = Some u"
  unfolding persist_def findById_def
  by (auto simp: find_replace find_append_new split: if_splits)

lemma persist_new:
  "persist True u users = Inr users' \<Longrightarrow> users' = users @ [u]"
  unfolding persist_def by (auto split: if_splits)

lemma save_stored:
  assumes "save h now this users rng = (Inr users', rng')"
  shows "\<exists>u. findById (oid this) users' = Some u
            \<and> password u = password (fst (pre_save h this rng))
            \<and> email u = email this
            \<and> rng' = snd (pre_save h this rng)"
proof -
  obtain d r where d: "pre_save h this rng = (d, r)" by (cases "pre_save h this rng")
  have od: "oid d = oid this" "email d = email this" "isNew d = isNew this"
    using d by (auto simp: pre_save_def split: if_splits prod.splits)
  let ?u = "user.truncate (timestamps now d)"
  have u: "oid ?u = oid this" "password ?u = password d" "email ?u = email this"
    using od by (simp_all add: timestamps_def user.truncate_def)
  from assms d have "persist (isNew d) ?u users = Inr users'" "rng' = r"
    by (auto simp: save_def split: if_splits)
  then show ?thesis using persist_findById [of "isNew d" ?u users users'] u d by auto
qed

lemma pre_save_runs_only_if_modified:
  "pre_save h this rng \<noteq> (this, rng) \<Longrightarrow> isModified ''password'' this"
  by (cases "isModified ''password'' this") (simp_all add: pre_save_def)

text \<open>
  The outcomes of the handler on a body that parses: either it answers 201 and has appended
  one record, made of the request's email, the new identifier and the hash of the request's
  password, or it answers something else and leaves the collection as it was.
\<close>

lemma POST_cases:
  assumes "POST h (Some parsed) db new_id now users rng = (resp, users', rng')"
  shows "(status resp = 201 \<and>
           (\<exists>e p k u. parsed ''email'' = Some e \<and> e \<noteq> [] \<and> parsed ''password'' = Some p \<and> p \<noteq> []
              \<and> db = Inr k \<and> findOne e users = None \<and> users' = users @ [u]
              \<and> oid u = new_id \<and> email u = e \<and> password u = fst (h p 10 rng)
              \<and> rng' = snd (h p 10 rng)))
         \<or> (status resp \<noteq> 201 \<and> users' = users)"
proof (cases "falsy (parsed ''email'') \<or> falsy (parsed ''password'')")
  case True
  then show ?thesis using assms by (auto simp: POST_def)
next
  case False
  then obtain e p where ep: "parsed ''email'' = Some e" "e \<noteq> []"
      "parsed ''password'' = Some p" "p \<noteq> []"
    by (auto simp: falsy_def split: option.splits)
  show ?thesis
  proof (cases db)
    case (Inl x)
    then show ?thesis using assms ep by (auto simp: POST_def falsy_def)
  next
    case (Inr k)
    show ?thesis
    proof (cases "findOne e users")
      case (Some a)
      then show ?thesis using assms ep Inr by (auto simp: POST_def falsy_def)
    next
      case None
      let ?d = "\<lparr>oid = new_id, email = e, password = p, createdAt = now, updatedAt = now,
                 isNew = True, modifiedPaths = [''email'', ''password'']\<rparr>"
      let ?u = "user.truncate (timestamps now (?d\<lparr>password := fst (h p 10 rng)\<rparr>))"
      have cr: "create h new_id now e p users rng
                  = (persist True ?u users, snd (h p 10 rng))"
        using ep by (simp add: create_def save_def validate_def pre_save_def isModified_def
            split: prod.splits)
      have u: "oid ?u = new_id" "email ?u = e" "password ?u = fst (h p 10 rng)"
        by (simp_all add: timestamps_def user.truncate_def)
      show ?thesis
      proof (cases "persist True ?u users")
        case (Inl x)
        then show ?thesis using assms ep \<open>db = Inr k\<close> None cr
          by (auto simp: POST_def falsy_def)
      next
        case (Inr us)
        then have "us = users @ [?u]" by (rule persist_new)
        then show ?thesis using assms ep \<open>db = Inr k\<close> None cr Inr u
          by (auto simp: POST_def falsy_def)
      qed
    qed
  qed
qed

text \<open>
  C6. When the password path of a document is not modified, the hook returns the document
  and the randomness untouched, so \<^verbatim>\<open>bcrypt.hash\<close> was not called; a save of such a
  document, whose password is the stored one, leaves the stored record with exactly
  that password. And the hook changes a document or consumes randomness only when the
  password path is modified.
\<close>

theorem unmodified_password_kept:
  assumes "\<not> isModified ''password'' this"
  shows "pre_save h this rng = (this, rng)
     \<and> (\<forall>users' rng' stored.
          findById (oid this) users = Some stored \<and> password stored = password this
          \<and> save h now this users rng = (Inr users', rng')
          \<longrightarrow> rng' = rng
              \<and> (\<exists>u. findById (oid this) users' = Some u \<and> password u = password stored))
     \<and> (\<forall>d r. pre_save h d r \<noteq> (d, r) \<longrightarrow> isModified ''password'' d)"
proof -
  have hook: "pre_save h this rng = (this, rng)"
    using assms by (simp add: pre_save_def)
  show ?thesis
    using hook save_stored [of h now this users rng] pre_save_runs_only_if_modified [of h]
    by auto
qed

theorem unmodified_password_kept_witness:
  "pre_save example_hash ann_doc 0 = (ann_doc, 0)
   \<and> save example_hash 9 ann_doc [ann] 0
       = (Inr [\<lparr>oid = 1, email = ''ann@y.io'', password = ''$2a$secret'', createdAt = 3,
                updatedAt = 9\<rparr>], 0)
   \<and> (\<exists>u. findById 1 [\<lparr>oid = 1, email = ''ann@y.io'', password = ''$2a$secret'',
                          createdAt = 3, updatedAt = 9\<rparr>] = Some u
           \<and> password u = password ann)"
proof -
  have m: "\<not> isModified ''password'' ann_doc"
    by (simp add: isModified_def ann_doc_def)
  have s: "save example_hash 9 ann_doc [ann] 0
       = (Inr [\<lparr>oid = 1, email = ''ann@y.io'', password = ''$2a$secret'', createdAt = 3,
                updatedAt = 9\<rparr>], 0)"
    by (simp add: save_def validate_def pre_save_def isModified_def persist_def
        timestamps_def user.truncate_def ann_doc_def ann_def)
  have f: "findById (oid ann_doc) [ann] = Some ann \<and> password ann = password ann_doc"
    by (simp add: findById_def ann_doc_def ann_def)
  show ?thesis
    using unmodified_password_kept [OF m, of example_hash 0 "[ann]" 9] s f
    by (simp add: ann_doc_def)
qed

text \<open>
  C7. A successful save of a document whose password path is modified stores the hash
  (cost 10) of the document's password, and a registration that answers 201 has appended a
  record whose password is the hash of the request's password; every other answer leaves
  the collection as it was. The stored value differs from the plaintext as soon as the
  hash function has no fixed point, which is a property of \<^verbatim>\<open>bcrypt\<close> and not of this
  code.
\<close>

theorem plaintext_never_stored:
  "(isModified ''password'' this \<and> save h now this users rng = (Inr users', rng') \<longrightarrow>
      (\<exists>u. findById (oid this) users' = Some u
          \<and> password u = fst (h (password this) 10 rng)
          \<and> ((\<forall>p r. fst (h p 10 r) \<noteq> p) \<longrightarrow> password u \<noteq> password this)))
   \<and> (POST h (Some parsed) db new_id now users rng = (resp, users2, rng2)
        \<and> parsed ''password'' = Some p \<longrightarrow>
        (status resp \<noteq> 201 \<and> users2 = users)
        \<or> (status resp = 201
            \<and> (\<exists>u. users2 = users @ [u] \<and> password u = fst (h p 10 rng)
                   \<and> ((\<forall>p r. fst (h p 10 r) \<noteq> p) \<longrightarrow> password u \<noteq> p))))"
proof -
  have A: "\<exists>u. findById (oid this) users' = Some u
          \<and> password u = fst (h (password this) 10 rng)
          \<and> ((\<forall>p r. fst (h p 10 r) \<noteq> p) \<longrightarrow> password u \<noteq> password this)"
    if "isModified ''password'' this" "save h now this users rng = (Inr users', rng')"
  proof -
    have "password (fst (pre_save h this rng)) = fst (h (password this) 10 rng)"
      using that(1) by (simp add: pre_save_def split: prod.splits)
    then show ?thesis using save_stored [OF that(2)] by auto
  qed
  have B: "(status resp \<noteq> 201 \<and> users2 = users)
        \<or> (status resp = 201
            \<and> (\<exists>u. users2 = users @ [u] \<and> password u = fst (h p 10 rng)
                   \<and> ((\<forall>p r. fst (h p 10 r) \<noteq> p) \<longrightarrow> password u \<noteq> p)))"
    if "POST h (Some parsed) db new_id now users rng = (resp, users2, rng2)"
      "parsed ''password'' = Some p"
    using POST_cases [OF that(1)] that(2) by auto
  show ?thesis using A B by blast
qed

theorem plaintext_never_stored_witness:
  "fst (POST example_hash (Some [''email'' \<mapsto> ''bob@x.io'', ''password'' \<mapsto> ''hunter2''])
          (Inr 0) 2 7 [ann] (0::nat))
     = \<lparr>body = MessageBody ''User registered successfully'', status = 201\<rparr>
   \<and> (\<exists>u. fst (snd (POST example_hash
                  (Some [''email'' \<mapsto> ''bob@x.io'', ''password'' \<mapsto> ''hunter2''])
                  (Inr 0) 2 7 [ann] (0::nat))) = [ann] @ [u]
          \<and> password u = ''$2a$hunter2'' \<and> password u \<noteq> ''hunter2'')"
proof -
  let ?req = "Some [''email'' \<mapsto> ''bob@x.io'', ''password'' \<mapsto> ''hunter2'']"
  let ?new = "\<lparr>oid = 2, email = ''bob@x.io'', password = ''$2a$hunter2'', createdAt = 7,
                updatedAt = 7\<rparr>"
  have run: "POST example_hash ?req (Inr 0) 2 7 [ann] (0::nat)
       = (\<lparr>body = MessageBody ''User registered successfully'', status = 201\<rparr>,
          [ann, ?new], 1)"
    by (simp add: POST_def falsy_def findOne_def create_def save_def validate_def
        pre_save_def isModified_def persist_def timestamps_def user.truncate_def
        example_hash_def ann_def)
  have nofix: "\<forall>p r. fst (example_hash p 10 r) \<noteq> p"
    by (simp add: example_hash_def)
  show ?thesis
    using plaintext_never_stored [where h = example_hash
        and parsed = "[''email'' \<mapsto> ''bob@x.io'', ''password'' \<mapsto> ''hunter2'']"
        and db = "Inr 0" and new_id = 2 and now = 7 and users = "[ann]" and rng = "0::nat"
        and resp = "\<lparr>body = MessageBody ''User registered successfully'', status = 201\<rparr>"
        and ?users2.0 = "[ann, ?new]" and ?rng2.0 = 1 and p = "''hunter2''"
        and this = "\<lparr>oid = 2, email = ''bob@x.io'', password = ''hunter2'', createdAt = 7,
            updatedAt = 7, isNew = True, modifiedPaths = [''email'', ''password'']\<rparr>"
        and users' = "[ann, ?new]" and rng' = 1] run nofix
    by (simp add: example_hash_def)
qed

text \<open>
  C10. A request whose email is already stored creates nothing and is never answered 201;
  when both fields are present and the connection is acquired the answer is 400 with
  \<^verbatim>\<open>Email already exists\<close>. An answer 201 means the email was not stored and exactly one
  record, with that email, was appended; and a request with both fields present, an email
  that is not stored, a fresh identifier and an acquired connection is answered 201.
\<close>

theorem registration_conflict:
  assumes "POST h (Some parsed) db new_id now users rng = (resp, users', rng')"
    and "parsed ''email'' = Some e"
  shows "(e \<in> email ` set users \<longrightarrow> users' = users \<and> status resp \<noteq> 201)
     \<and> (\<forall>k. e \<in> email ` set users \<and> db = Inr k \<and> e \<noteq> [] \<and> \<not> falsy (parsed ''password'')
            \<longrightarrow> resp = \<lparr>body = ErrorBody ''Email already exists'', status = 400\<rparr>)
     \<and> (status resp = 201 \<longrightarrow>
           e \<notin> email ` set users
           \<and> (\<exists>u. users' = users @ [u] \<and> email u = e \<and> oid u = new_id))
     \<and> (\<forall>k. e \<notin> email ` set users \<and> new_id \<notin> oid ` set users \<and> db = Inr k \<and> e \<noteq> []
            \<and> \<not> falsy (parsed ''password'') \<longrightarrow> status resp = 201)"
proof -
  have a: "users' = users \<and> status resp \<noteq> 201" if "e \<in> email ` set users"
    using POST_cases [OF assms(1)] assms(2) that findOne_None_iff [of e users] by auto
  have b: "resp = \<lparr>body = ErrorBody ''Email already exists'', status = 400\<rparr>"
    if ex: "e \<in> email ` set users" and ok: "db = Inr k" "e \<noteq> []"
      "\<not> falsy (parsed ''password'')" for k
  proof -
    from ex have "findOne e users \<noteq> None" by (simp add: findOne_None_iff)
    then obtain v where "findOne e users = Some v" by blast
    then show ?thesis using assms ok by (auto simp: POST_def falsy_def)
  qed
  have c: "e \<notin> email ` set users \<and> (\<exists>u. users' = users @ [u] \<and> email u = e \<and> oid u = new_id)"
    if "status resp = 201"
    using POST_cases [OF assms(1)] assms(2) that findOne_None_iff [of e users] by auto
  have d: "status resp = 201"
    if new: "e \<notin> email ` set users" "new_id \<notin> oid ` set users"
      and ok: "db = Inr k" "e \<noteq> []" and pw: "\<not> falsy (parsed ''password'')" for k
  proof -
    from pw have "\<exists>p. parsed ''password'' = Some p \<and> p \<noteq> []"
      by (auto simp: falsy_def split: option.splits)
    then obtain p where p: "parsed ''password'' = Some p" "p \<noteq> []" by blast
    have none: "findOne e users = None" using new(1) by (simp add: findOne_None_iff)
    have fresh: "\<not> list_ex (\<lambda>v. email v = e \<or> oid v = new_id) users"
      using new by (auto simp: list_ex_iff)
    show ?thesis
      using assms p none fresh ok
      by (auto simp: POST_def falsy_def create_def save_def validate_def pre_save_def
          isModified_def persist_def timestamps_def user.truncate_def split: prod.splits)
  qed
  show ?thesis using a b c d by blast
qed

theorem registration_conflict_witness:
  "POST example_hash (Some [''email'' \<mapsto> ''ann@x.io'', ''password'' \<mapsto> ''hunter2''])
      (Inr 0) 2 7 [ann] (0::nat)
     = (\<lparr>body = ErrorBody ''Email already exists'', status = 400\<rparr>, [ann], 0)"
proof -
  have run: "\<exists>resp. POST example_hash
      (Some [''email'' \<mapsto> ''ann@x.io'', ''password'' \<mapsto> ''hunter2'']) (Inr 0) 2 7 [ann] (0::nat)
      = (resp, [ann], 0)"
    by (simp add: POST_def falsy_def findOne_def ann_def)
  then obtain resp where r: "POST example_hash
      (Some [''email'' \<mapsto> ''ann@x.io'', ''password'' \<mapsto> ''hunter2'']) (Inr 0) 2 7 [ann] (0::nat)
      = (resp, [ann], 0)" ..
  have "resp = \<lparr>body = ErrorBody ''Email already exists'', status = 400\<rparr>"
    using registration_conflict [OF r, of "''ann@x.io''"]
    by (simp add: falsy_def ann_def)
  with r show ?thesis by simp
qed


section \<open>Properties of the connection cache\<close>

lemma single_init: "single init" "unspent init"
  by (simp_all add: single_def unspent_def init_def)

lemma pending_callers_step:
  "pending_callers s \<Longrightarrow> step e s = Some s' \<Longrightarrow> pending_callers s'"
  by (cases e)
    (auto simp: pending_callers_def call_def resume_def
      split: if_splits option.splits attempt.splits)

lemma no_failure_step:
  assumes "pending_callers s" "step e s = Some s'" "no_failure s'"
  shows "no_failure s"
  unfolding no_failure_def
proof (intro allI notI)
  fix c x
  assume f: "returned s c = Some (Inl x)"
  have kept: "returned s' c = returned s c"
  proof (cases e)
    case (Call d)
    then show ?thesis using assms(2) f
      by (auto simp: call_def split: if_splits option.splits)
  next
    case (Settle a out)
    then show ?thesis using assms(2) by (auto split: if_splits)
  next
    case (Resume d)
    then have "waiting s d \<noteq> None" using assms(2)
      by (auto simp: resume_def split: option.splits)
    then have "d \<noteq> c" using assms(1) f by (auto simp: pending_callers_def)
    then show ?thesis using assms(2) Resume
      by (auto simp: resume_def split: if_splits option.splits attempt.splits)
  qed
  with f assms(3) show False by (simp add: no_failure_def)
qed

lemma no_failure_run:
  "pending_callers s \<Longrightarrow> run evs s = Some s' \<Longrightarrow> no_failure s' \<Longrightarrow> no_failure s"
proof (induction evs arbitrary: s)
  case Nil
  then show ?case by simp
next
  case (Cons e evs)
  from Cons.prems(2) obtain t where t: "step e s = Some t" "run evs t = Some s'"
    by (auto split: option.splits)
  have "pending_callers t" using pending_callers_step [OF Cons.prems(1) t(1)] .
  then have "no_failure t" using Cons.IH [OF _ t(2) Cons.prems(3)] by simp
  then show ?case using no_failure_step [OF Cons.prems(1) t(1)] by simp
qed

lemma length_le_1: "length xs \<le> 1 \<Longrightarrow> xs \<noteq> [] \<Longrightarrow> \<exists>x. xs = [x]"
  by (cases xs) auto

lemma single_call:
  assumes "single s" "unspent s" "waiting s c = None" "returned s c = None"
  shows "single (call c s) \<and> unspent (call c s)"
  using assms
  by (auto simp: single_def unspent_def call_def split: option.splits)

lemma single_settle:
  assumes "single s" "a < length (attempts s)" "attempts s ! a = Pending" "out \<noteq> Pending"
  shows "single (s\<lparr>attempts := (attempts s)[a := out]\<rparr>)"
proof -
  from assms have "attempts s = [Pending]" "a = 0"
    by (cases "attempts s"; auto simp: single_def)+
  then show ?thesis using assms(1) by (auto simp: single_def)
qed

lemma unspent_settle:
  "unspent s \<Longrightarrow> a < length (attempts s) \<Longrightarrow> unspent (s\<lparr>attempts := (attempts s)[a := out]\<rparr>)"
  by (auto simp: unspent_def)

lemma single_resume:
  assumes "single s" "resume c s = Some s'"
  shows "single s'"
proof -
  from assms(2) obtain a where a: "waiting s c = Some a" "a < length (attempts s)"
    by (auto simp: resume_def split: option.splits if_splits)
  with assms(1) have a0: "a = 0" by (auto simp: single_def)
  from assms(1) a obtain x where x: "attempts s = [x]"
    using length_le_1 [of "attempts s"] by (auto simp: single_def)
  show ?thesis
  proof (cases x)
    case Pending
    then show ?thesis using assms(2) a a0 x by (simp add: resume_def)
  next
    case (Resolved h)
    then have "s' = s\<lparr>cached := (cached s)\<lparr>conn := Some h\<rparr>,
                       waiting := (waiting s)(c := None),
                       returned := (returned s)(c \<mapsto> Inr h)\<rparr>"
      using assms(2) a a0 x by (simp add: resume_def)
    then show ?thesis using assms(1) x Resolved by (auto simp: single_def)
  next
    case Rejected
    then have "s' = s\<lparr>cached := (cached s)\<lparr>promise := None\<rparr>,
                       waiting := (waiting s)(c := None),
                       returned := (returned s)(c \<mapsto> Inl DatabaseConnectionFailed)\<rparr>"
      using assms(2) a a0 x by (simp add: resume_def)
    then show ?thesis using assms(1) x Rejected by (auto simp: single_def)
  qed
qed

lemma unspent_resume:
  assumes "unspent s" "resume c s = Some s'" "no_failure s'"
  shows "unspent s'"
  using assms
  by (auto simp: unspent_def resume_def no_failure_def
      split: option.splits if_splits attempt.splits)

lemma first_phase_step:
  assumes "single s \<and> unspent s" "step e s = Some s'" "no_failure s'"
  shows "single s' \<and> unspent s'"
proof (cases e)
  case (Call c)
  then show ?thesis using assms single_call [of s c] by (auto split: if_splits)
next
  case (Settle a out)
  then show ?thesis using assms single_settle [of s a out] unspent_settle [of s a out]
    by (auto split: if_splits)
next
  case (Resume c)
  then show ?thesis using assms single_resume [of s c s'] unspent_resume [of s c s'] by auto
qed

lemma first_phase_run:
  "single s \<and> unspent s \<Longrightarrow> pending_callers s \<Longrightarrow> run evs s = Some s' \<Longrightarrow> no_failure s'
     \<Longrightarrow> single s' \<and> unspent s'"
proof (induction evs arbitrary: s)
  case Nil
  then show ?case by simp
next
  case (Cons e evs)
  from Cons.prems(3) obtain t where t: "step e s = Some t" "run evs t = Some s'"
    by (auto split: option.splits)
  have pt: "pending_callers t" using pending_callers_step [OF Cons.prems(2) t(1)] .
  have "no_failure t" using no_failure_run [OF pt t(2) Cons.prems(4)] .
  then have "single t \<and> unspent t" using first_phase_step [OF Cons.prems(1) t(1)] by simp
  then show ?case using Cons.IH [OF _ pt t(2) Cons.prems(4)] by simp
qed

lemma second_phase_run:
  "single s \<Longrightarrow> run evs s = Some s' \<Longrightarrow> \<not> list_ex isCall evs \<Longrightarrow> single s'"
proof (induction evs arbitrary: s)
  case Nil
  then show ?case by simp
next
  case (Cons e evs)
  from Cons.prems(2) obtain t where t: "step e s = Some t" "run evs t = Some s'"
    by (auto split: option.splits)
  have "single t"
  proof (cases e)
    case (Call c)
    then show ?thesis using Cons.prems(3) by (simp add: isCall_def)
  next
    case (Settle a out)
    then show ?thesis using t(1) Cons.prems(1) single_settle [of s a out]
      by (auto split: if_splits)
  next
    case (Resume c)
    then show ?thesis using t(1) Cons.prems(1) single_resume [of s c t] by simp
  qed
  then show ?case using Cons.IH [OF _ t(2)] Cons.prems(3) by simp
qed

text \<open>
  C1, amended. Take any run from the initial state in which no caller has got a failure so
  far, followed by any events that are not new calls. Then at most one connection attempt
  was started, every suspended caller awaits that attempt, and all callers that have
  returned got the same result: the same connection, or the error
  \<^verbatim>\<open>Database connection failed\<close>.
\<close>

theorem single_flight:
  assumes "run evs init = Some s1" and "no_failure s1"
    and "run evs' s1 = Some s2" and "\<not> list_ex isCall evs'"
  shows "length (attempts s2) \<le> 1
     \<and> (\<forall>c a. waiting s2 c = Some a \<longrightarrow> a = 0)
     \<and> (\<forall>c c' r r'. returned s2 c = Some r \<and> returned s2 c' = Some r' \<longrightarrow> r = r')
     \<and> (\<forall>c e. returned s2 c = Some (Inl e) \<longrightarrow> e = DatabaseConnectionFailed)"
proof -
  have "single s1"
    using first_phase_run [OF _ _ assms(1,2)] single_init
    by (simp add: pending_callers_def init_def)
  then have s2: "single s2" using second_phase_run [OF _ assms(3,4)] by simp
  have same: "r = r'" if "returned s2 c = Some r" "returned s2 c' = Some r'" for c c' r r'
  proof (cases r)
    case (Inl e)
    then have "attempts s2 = [Rejected]" "e = DatabaseConnectionFailed"
      using s2 that(1) by (auto simp: single_def)
    then show ?thesis using s2 that(2) Inl by (cases r') (auto simp: single_def)
  next
    case (Inr h)
    then have "attempts s2 = [Resolved h]" using s2 that(1) by (auto simp: single_def)
    then show ?thesis using s2 that(2) Inr by (cases r') (auto simp: single_def)
  qed
  show ?thesis using s2 same by (auto simp: single_def)
qed


lemmas exec = init_def call_def resume_def

theorem single_flight_witness:
  "length (attempts (the (run [Resume 0, Resume 1, Resume 2]
       (the (run [Call 0, Call 1, Settle 0 Rejected, Call 2] init))))) \<le> 1
   \<and> returned (the (run [Resume 0, Resume 1, Resume 2]
       (the (run [Call 0, Call 1, Settle 0 Rejected, Call 2] init)))) 0
      = Some (Inl DatabaseConnectionFailed)
   \<and> returned (the (run [Resume 0, Resume 1, Resume 2]
       (the (run [Call 0, Call 1, Settle 0 Rejected, Call 2] init)))) 2
      = returned (the (run [Resume 0, Resume 1, Resume 2]
       (the (run [Call 0, Call 1, Settle 0 Rejected, Call 2] init)))) 0"
proof -
  let ?s1 = "the (run [Call 0, Call 1, Settle 0 Rejected, Call 2] init)"
  let ?s2 = "the (run [Resume 0, Resume 1, Resume 2] ?s1)"
  have r1: "run [Call 0, Call 1, Settle 0 Rejected, Call 2] init = Some ?s1"
    by (simp add: exec)
  have nf: "no_failure ?s1"
    by (simp add: exec no_failure_def)
  have r2: "run [Resume 0, Resume 1, Resume 2] ?s1 = Some ?s2"
    by (simp add: exec)
  have nc: "\<not> list_ex isCall [Resume 0, Resume 1, Resume 2]"
    by (simp add: isCall_def)
  have got: "returned ?s2 0 = Some (Inl DatabaseConnectionFailed)"
    "returned ?s2 2 = Some (Inl DatabaseConnectionFailed)"
    by (simp_all add: exec)
  from single_flight [OF r1 nf r2 nc] got show ?thesis by simp
qed

text \<open>
  C1, as the claim states it, fails. A caller whose attempt failed has cleared the stored
  promise, so a second caller, which also begins before any call has succeeded, starts a
  second attempt; the first caller got the error and the second gets a connection.
\<close>

theorem retry_starts_second_attempt:
  "(case run [Call 0, Settle 0 Rejected, Resume 0, Call 1] init of
      None \<Rightarrow> False
    | Some s \<Rightarrow> attempts s = [Rejected, Pending] \<and> (\<forall>c h. returned s c \<noteq> Some (Inr h)))
   \<and> (case run [Call 0, Settle 0 Rejected, Resume 0, Call 1, Settle 1 (Resolved 7), Resume 1]
             init of
      None \<Rightarrow> False
    | Some s \<Rightarrow> length (attempts s) = 2
        \<and> returned s 0 = Some (Inl DatabaseConnectionFailed)
        \<and> returned s 1 = Some (Inr 7))"
  by (simp add: exec)

text \<open>
  The \<^verbatim>\<open>catch\<close> clears whatever promise is stored, not the one it awaited. When a
  caller that awaited the failed attempt resumes after another caller has stored a new
  promise, it clears the new one, and a further caller starts a third attempt while the
  second is pending: callers 2 and 3 are both suspended, on different attempts.
\<close>

lemma stale_handler_clears_newer_promise:
  "(case run [Call 0, Settle 0 Rejected, Call 1, Resume 0, Call 2, Resume 1, Call 3] init of
      None \<Rightarrow> False
    | Some s \<Rightarrow> attempts s = [Rejected, Pending, Pending]
        \<and> waiting s 2 = Some 1 \<and> waiting s 3 = Some 2)"
  by (simp add: exec)

text \<open>
  C5. When the attempt a suspended caller awaits is rejected, the caller resumes, clears
  the stored promise, leaves the cached connection as it was and gets the error
  \<^verbatim>\<open>Database connection failed\<close>. A call that comes next, with no connection cached,
  starts a new attempt, stores its promise and awaits it, not the failed one.
\<close>

theorem failure_clears_promise:
  assumes "waiting s c = Some a" and "a < length (attempts s)"
    and "attempts s ! a = Rejected"
  shows "\<exists>s'. step (Resume c) s = Some s'
      \<and> promise (cached s') = None
      \<and> conn (cached s') = conn (cached s)
      \<and> attempts s' = attempts s
      \<and> returned s' c = Some (Inl DatabaseConnectionFailed)
      \<and> (\<forall>d. waiting s' d = None \<and> returned s' d = None \<and> conn (cached s') = None \<longrightarrow>
            (\<exists>s''. step (Call d) s' = Some s''
               \<and> attempts s'' = attempts s @ [Pending]
               \<and> promise (cached s'') = Some (length (attempts s))
               \<and> waiting s'' d = Some (length (attempts s))
               \<and> length (attempts s) \<noteq> a))"
  using assms by (auto simp: resume_def call_def)

theorem failure_clears_promise_witness:
  "(\<exists>s'. step (Resume 0) (the (run [Call 0, Settle 0 Rejected] init)) = Some s'
      \<and> promise (cached s') = None
      \<and> returned s' 0 = Some (Inl DatabaseConnectionFailed)
      \<and> (\<exists>s''. step (Call 1) s' = Some s''
             \<and> attempts s'' = [Rejected, Pending]
             \<and> promise (cached s'') = Some 1 \<and> waiting s'' 1 = Some 1))"
proof -
  let ?s = "the (run [Call 0, Settle 0 Rejected] init)"
  have w: "waiting ?s 0 = Some 0" "0 < length (attempts ?s)" "attempts ?s ! 0 = Rejected"
    "attempts ?s = [Rejected]"
    by (simp_all add: exec)
  from failure_clears_promise [OF w(1-3)] obtain s' where s':
    "step (Resume 0) ?s = Some s'" "promise (cached s') = None"
    "conn (cached s') = conn (cached ?s)" "attempts s' = attempts ?s"
    "returned s' 0 = Some (Inl DatabaseConnectionFailed)"
    "\<forall>d. waiting s' d = None \<and> returned s' d = None \<and> conn (cached s') = None \<longrightarrow>
            (\<exists>s''. step (Call d) s' = Some s''
               \<and> attempts s'' = attempts ?s @ [Pending]
               \<and> promise (cached s'') = Some (length (attempts ?s))
               \<and> waiting s'' d = Some (length (attempts ?s))
               \<and> length (attempts ?s) \<noteq> 0)"
    by blast
  have free: "waiting s' 1 = None \<and> returned s' 1 = None \<and> conn (cached s') = None"
    using s'(1) by (auto simp: exec)
  with s'(6) obtain s'' where "step (Call 1) s' = Some s''"
     "attempts s'' = attempts ?s @ [Pending]"
     "promise (cached s'') = Some (length (attempts ?s))"
     "waiting s'' 1 = Some (length (attempts ?s))"
    by blast
  with s' w(4) show ?thesis by auto
qed

end
